theory Spec2Isabelle
  imports Complex_Main "HOL-Library.AList" "HOL-Library.Sublist"
begin

section \<open>The analytics core of the learning dashboard\<close>

text \<open>
  A shallow embedding of the \<^verbatim>\<open>analytics\<close> memo of
  \<^verbatim>\<open>src/components/LearningDashboard/page.tsx\<close> (lines 158-393; the specification calls
  it \<^verbatim>\<open>computeAnalytics\<close>) and of the delta column of the CSV export (lines 1102-1108).

  Numbers. A JavaScript number is a double. Learner ids are modelled as \<^typ>\<open>int\<close> and
  completion percentages as exact rationals (\<^typ>\<open>rat\<close>): sums and quotients are exact, so
  nothing here speaks about the rounding error of floating-point addition or division, and
  \<^verbatim>\<open>NaN\<close> and the infinities are not values of the model. On a finite number
  \<^verbatim>\<open>parseFloat(String(x)) || 0\<close> returns \<open>x\<close>, which is how the model reads a completion.
\<close>

subsection \<open>Data model (lines 10-76)\<close>

record ExcelRow =
  User_ID :: int
  User_First_Name :: string
  User_Last_Name :: string
  User_Email :: string
  District :: string
  User_Status :: string
  User_Creation_Date :: string
  User_last_access_date :: string
  Curriculum_Title :: string
  Transcript_Status_Group :: string
  Curriculum_Completion_Percentage :: rat

record Course =
  title :: string
  completion :: rat
  status :: string

text \<open>The field \<^verbatim>\<open>id\<close> is called \<open>lid\<close>: \<open>id\<close> is the identity function of HOL.\<close>

record LearnerProgress =
  lid :: int
  name :: string
  email :: string
  district :: string
  courses :: "Course list"
  totalCompletion :: rat
  completed :: nat
  inProgress :: nat
  notStarted :: nat

text \<open>The optional fields of \<^verbatim>\<open>Learner\<close> are options; an entry of \<^verbatim>\<open>recentAvgs\<close> is
  \<open>None\<close> where the source stores \<^verbatim>\<open>null\<close>.\<close>

record Learner = LearnerProgress +
  avgCompletion :: int
  level :: string
  week1Avg :: "int option"
  week2Avg :: "int option"
  recentAvgs :: "int option list option"

record MonthlyData =
  month :: string
  learnersM :: nat
  avgM :: int
  completedM :: nat
  inProgressM :: nat
  notStartedM :: nat

record Snapshot =
  sname :: string
  rows :: "ExcelRow list"

record Analytics =
  totalLearners :: nat
  improvedLearners :: nat
  supportNeeded :: "Learner list"
  improvedList :: "Learner list"
  supportList :: "Learner list"
  failedStudents :: "Learner list"
  finishedStudents :: "Learner list"
  consistentCompleters :: "Learner list"
  averageCompletion :: int
  learners :: "Learner list"
  monthlyData :: "MonthlyData list"

subsection \<open>JavaScript primitives\<close>

text \<open>\<^verbatim>\<open>Math.round\<close> returns the nearest integer, the larger one at a tie.\<close>

definition Math_round :: "rat \<Rightarrow> int" where
  "Math_round x = \<lfloor>x + 1 / 2\<rfloor>"

text \<open>
  An object with numeric keys (\<^verbatim>\<open>Record<number, V>\<close>) is an association list in insertion
  order with distinct keys: \<open>map_of\<close> reads a key, \<open>AList.update\<close> overwrites a key in place or
  appends a new one. \<^verbatim>\<open>Object.keys\<close> and \<^verbatim>\<open>Object.values\<close> list the array-index keys
  (the integers from 0 to \<open>2^32 - 2\<close>) first, in ascending order, and the other keys after
  them in insertion order.
\<close>

type_synonym 'v js_object = "(int \<times> 'v) list"

definition is_array_index :: "int \<Rightarrow> bool" where
  "is_array_index k \<longleftrightarrow> 0 \<le> k \<and> k < 4294967295"

definition Object_entries :: "'v js_object \<Rightarrow> (int \<times> 'v) list" where
  "Object_entries obj =
     sort_key fst (filter (\<lambda>p. is_array_index (fst p)) obj)
     @ filter (\<lambda>p. \<not> is_array_index (fst p)) obj"

definition Object_keys :: "'v js_object \<Rightarrow> int list" where
  "Object_keys obj = map fst (Object_entries obj)"

definition Object_values :: "'v js_object \<Rightarrow> 'v list" where
  "Object_values obj = map snd (Object_entries obj)"

text \<open>A \<^verbatim>\<open>Set\<close> built from a list keeps the first occurrence of each element, in order.\<close>

definition Set_add :: "int list \<Rightarrow> int \<Rightarrow> int list" where
  "Set_add s x = (if x \<in> set s then s else s @ [x])"

definition new_Set :: "int list \<Rightarrow> int list" where
  "new_Set xs = foldl Set_add [] xs"

text \<open>The decimal text of an integer, as a template literal prints one below \<open>10^21\<close> in
  magnitude.\<close>

definition digit_char :: "nat \<Rightarrow> char" where
  "digit_char d = ''0123456789'' ! d"

fun string_of_nat :: "nat \<Rightarrow> string" where
  "string_of_nat n =
     (if n < 10 then [digit_char n] else string_of_nat (n div 10) @ [digit_char (n mod 10)])"

declare string_of_nat.simps [simp del]

definition Number_toString :: "int \<Rightarrow> string" where
  "Number_toString i = (if i < 0 then CHR ''-'' # string_of_nat (nat (- i)) else string_of_nat (nat i))"

subsection \<open>Row aggregation over the last snapshot (lines 166-204)\<close>

definition parseCompletion :: "ExcelRow \<Rightarrow> rat" where
  "parseCompletion row = Curriculum_Completion_Percentage row"

text \<open>The body of \<^verbatim>\<open>last.forEach\<close>: the record of the row's learner is created when the
  key is new, then a course is pushed, the sum grows and one of the three counters is
  incremented.\<close>

definition learnerProgress_step :: "LearnerProgress js_object \<Rightarrow> ExcelRow \<Rightarrow> LearnerProgress js_object" where
  "learnerProgress_step learnerProgress row =
     (let userId = User_ID row;
          completion = parseCompletion row;
          l0 = (case map_of learnerProgress userId of
                  None \<Rightarrow> \<lparr>lid = userId,
                            name = User_First_Name row @ '' '' @ User_Last_Name row,
                            email = User_Email row,
                            district = District row,
                            courses = [],
                            totalCompletion = 0,
                            completed = 0,
                            inProgress = 0,
                            notStarted = 0\<rparr>
                | Some l \<Rightarrow> l);
          l1 = l0\<lparr>courses := courses l0 @
                  [\<lparr>title = Curriculum_Title row, completion = completion,
                    status = Transcript_Status_Group row\<rparr>]\<rparr>;
          l2 = l1\<lparr>totalCompletion := totalCompletion l1 + completion\<rparr>;
          l3 = (if completion \<ge> 100 then l2\<lparr>completed := completed l2 + 1\<rparr>
                else if completion \<ge> 1 \<and> completion < 100 then l2\<lparr>inProgress := inProgress l2 + 1\<rparr>
                else l2\<lparr>notStarted := notStarted l2 + 1\<rparr>)
      in AList.update userId l3 learnerProgress)"

definition learnerProgress_of :: "ExcelRow list \<Rightarrow> LearnerProgress js_object" where
  "learnerProgress_of lastRows = foldl learnerProgress_step [] lastRows"

definition to_Learner :: "LearnerProgress \<Rightarrow> Learner" where
  "to_Learner learner =
     \<lparr>lid = lid learner, name = name learner, email = email learner,
      district = district learner, courses = courses learner,
      totalCompletion = totalCompletion learner, completed = completed learner,
      inProgress = inProgress learner, notStarted = notStarted learner,
      avgCompletion = (if length (courses learner) > 0
                       then Math_round (totalCompletion learner / of_nat (length (courses learner)))
                       else 0),
      level = (if completed learner \<ge> 3 then ''Advanced''
               else if completed learner \<ge> 1 then ''Intermediate'' else ''Beginner''),
      week1Avg = None, week2Avg = None, recentAvgs = None\<rparr>"

definition learners_of :: "ExcelRow list \<Rightarrow> Learner list" where
  "learners_of lastRows = map to_Learner (Object_values (learnerProgress_of lastRows))"

subsection \<open>Per-snapshot averages (lines 216-231, 322-334, 360-368)\<close>

record TotalCount =
  total :: rat
  count :: nat

text \<open>The accumulation of one row; the source writes it three times, with the same body.\<close>

definition avg_step :: "TotalCount js_object \<Rightarrow> ExcelRow \<Rightarrow> TotalCount js_object" where
  "avg_step m r =
     (let i = User_ID r;
          val = parseCompletion r;
          tc = (case map_of m i of None \<Rightarrow> \<lparr>total = 0, count = 0\<rparr> | Some tc \<Rightarrow> tc)
      in AList.update i \<lparr>total = total tc + val, count = count tc + 1\<rparr> m)"

definition avg_of :: "TotalCount \<Rightarrow> int" where
  "avg_of p = Math_round (total p / of_nat (max 1 (count p)))"

definition avgMap :: "ExcelRow list \<Rightarrow> int js_object" where
  "avgMap arr =
     (let m = foldl avg_step [] arr
      in foldl (\<lambda>avg n. case map_of m n of
                           None \<Rightarrow> avg
                         | Some tc \<Rightarrow> AList.update n (avg_of tc) avg)
           [] (Object_keys m))"

definition avgMapsAll :: "Snapshot list \<Rightarrow> int js_object list" where
  "avgMapsAll snapshots =
     map (\<lambda>snap.
            let tmp = foldl avg_step [] (rows snap)
            in foldl (\<lambda>m n. case map_of tmp n of
                               None \<Rightarrow> m
                             | Some tc \<Rightarrow> AList.update n (avg_of tc) m)
                 [] (Object_keys tmp))
         snapshots"

subsection \<open>Comparison of the two most recent snapshots (lines 207-308)\<close>

fun find_in_snapshots :: "Snapshot list \<Rightarrow> int \<Rightarrow> ExcelRow option" where
  "find_in_snapshots [] searchId = None"
| "find_in_snapshots (s # ss) searchId =
     (case find (\<lambda>rr. User_ID rr = searchId) (rows s) of
        Some r \<Rightarrow> Some r
      | None \<Rightarrow> find_in_snapshots ss searchId)"

text \<open>The loop runs from the last snapshot down to the first.\<close>

definition findRowAcrossSnapshots :: "Snapshot list \<Rightarrow> int \<Rightarrow> ExcelRow option" where
  "findRowAcrossSnapshots snapshots searchId = find_in_snapshots (rev snapshots) searchId"

definition allIds :: "Snapshot list \<Rightarrow> int list" where
  "allIds snapshots = new_Set (concat (map Object_keys (map (\<lambda>s. avgMap (rows s)) snapshots)))"

definition or_zero :: "int option \<Rightarrow> int" where
  "or_zero v = (case v of None \<Rightarrow> 0 | Some x \<Rightarrow> x)"

definition recentAvgs_of :: "Snapshot list \<Rightarrow> int \<Rightarrow> int option list" where
  "recentAvgs_of snapshots i =
     (let avgMaps = map (\<lambda>s. avgMap (rows s)) snapshots;
          startIdx = nat (max 0 (int (length snapshots) - 4))
      in map (\<lambda>j. map_of (avgMaps ! j) i) [startIdx ..< length snapshots])"

text \<open>The body of \<^verbatim>\<open>allIds.forEach\<close>; the state is the pair of lists that the source
  pushes to.\<close>

definition compare_step ::
  "Snapshot list \<Rightarrow> Learner list \<Rightarrow> Learner list \<times> Learner list \<Rightarrow> int \<Rightarrow> Learner list \<times> Learner list" where
  "compare_step snapshots lrs st i =
     (let improvedL = fst st;
          supportL = snd st;
          snap1 = rows (snapshots ! (length snapshots - 2));
          snap2 = rows (snapshots ! (length snapshots - 1));
          v1 = or_zero (map_of (avgMap snap1) i);
          v2 = or_zero (map_of (avgMap snap2) i);
          recent = recentAvgs_of snapshots i
      in case find (\<lambda>l. lid l = i) lrs of
           Some existing \<Rightarrow>
             (let enriched = existing\<lparr>week1Avg := Some v1, week2Avg := Some v2,
                                      avgCompletion := v2, recentAvgs := Some recent\<rparr>
              in if v1 < v2 then (improvedL @ [enriched], supportL)
                 else if v1 = v2 then (improvedL, supportL @ [enriched])
                 else (improvedL, supportL))
         | None \<Rightarrow>
             (let rowSource = findRowAcrossSnapshots snapshots i;
                  rowsForId = filter (\<lambda>r. User_ID r = i) snap2 @ filter (\<lambda>r. User_ID r = i) snap1;
                  cs = map (\<lambda>r. \<lparr>title = Curriculum_Title r, completion = parseCompletion r,
                                  status = Transcript_Status_Group r\<rparr>) rowsForId;
                  base = \<lparr>lid = i,
                          name = (case rowSource of
                                    Some r \<Rightarrow> User_First_Name r @ '' '' @ User_Last_Name r
                                  | None \<Rightarrow> Number_toString i),
                          email = (case rowSource of Some r \<Rightarrow> User_Email r | None \<Rightarrow> ''''),
                          district = (case rowSource of Some r \<Rightarrow> District r | None \<Rightarrow> ''''),
                          courses = cs,
                          totalCompletion = foldl (\<lambda>s c. s + completion c) 0 cs,
                          completed = length (filter (\<lambda>c. completion c \<ge> 100) cs),
                          inProgress = length (filter (\<lambda>c. completion c \<ge> 1 \<and> completion c < 100) cs),
                          notStarted = length (filter (\<lambda>c. completion c < 1) cs),
                          avgCompletion = v2,
                          level = '''',
                          week1Avg = Some v1,
                          week2Avg = Some v2,
                          recentAvgs = Some recent\<rparr>
              in if v1 < v2 then (improvedL @ [base], supportL)
                 else if v1 = v2 then (improvedL, supportL @ [base])
                 else (improvedL, supportL)))"

text \<open>The block guarded by \<^verbatim>\<open>snapshots.length >= 2\<close>: the improved list and the support
  list as they stand at line 308.\<close>

definition compare_snapshots :: "Snapshot list \<Rightarrow> Learner list \<Rightarrow> Learner list \<times> Learner list" where
  "compare_snapshots snapshots lrs =
     (if length snapshots \<ge> 2
      then foldl (compare_step snapshots lrs) ([], []) (allIds snapshots)
      else ([], []))"

subsection \<open>Finished learners (lines 317-356)\<close>

definition count100 :: "int js_object list \<Rightarrow> int \<Rightarrow> nat" where
  "count100 maps i = foldl (\<lambda>c m. if or_zero (map_of m i) \<ge> 100 then c + 1 else c) 0 maps"

definition finished_step ::
  "Snapshot list \<Rightarrow> Learner list \<Rightarrow> Learner list \<times> Learner list \<Rightarrow> int \<Rightarrow> Learner list \<times> Learner list" where
  "finished_step snapshots lrs st i =
     (if count100 (avgMapsAll snapshots) i \<ge> 2
      then (case find (\<lambda>l. lid l = i) lrs of
              Some existing \<Rightarrow> (fst st @ [existing], snd st @ [existing])
            | None \<Rightarrow> st)
      else st)"

definition finished_of :: "Snapshot list \<Rightarrow> Learner list \<Rightarrow> Learner list \<times> Learner list" where
  "finished_of snapshots lrs =
     (if length snapshots > 0
      then foldl (finished_step snapshots lrs) ([], []) (new_Set (map lid lrs))
      else ([], []))"

text \<open>Lines 351-355: the support list after the finished learners are taken out.\<close>

definition exclude_finished :: "Snapshot list \<Rightarrow> Learner list \<Rightarrow> Learner list \<Rightarrow> Learner list" where
  "exclude_finished snapshots finished supportL =
     (if length snapshots > 0 \<and> length finished > 0
      then filter (\<lambda>s. lid s \<notin> set (new_Set (map lid finished))) supportL
      else supportL)"

subsection \<open>Per-report summary (lines 358-378)\<close>

definition monthlyData_step :: "nat \<times> Snapshot \<Rightarrow> MonthlyData" where
  "monthlyData_step p =
     (let idx = fst p;
          snap = snd p;
          perLearner = foldl avg_step [] (rows snap);
          learnerAvgs = map avg_of (Object_values perLearner);
          counts = foldl (\<lambda>(c, ip, ns) a.
                            if a \<ge> 100 then (c + 1, ip, ns)
                            else if a \<ge> 1 \<and> a < 100 then (c, ip + 1, ns)
                            else (c, ip, ns + 1))
                     (0, 0, 0) learnerAvgs;
          a = (if length learnerAvgs > 0
               then Math_round (of_int (foldl (\<lambda>s v. s + v) 0 learnerAvgs) / of_nat (length learnerAvgs))
               else 0);
          label = (if sname snap \<noteq> '''' then sname snap else ''Week '' @ string_of_nat (idx + 1))
      in \<lparr>month = label, learnersM = length learnerAvgs, avgM = a,
          completedM = fst counts, inProgressM = fst (snd counts), notStartedM = snd (snd counts)\<rparr>)"

definition monthlyData_of :: "Snapshot list \<Rightarrow> MonthlyData list" where
  "monthlyData_of snapshots = map monthlyData_step (enumerate 0 snapshots)"

subsection \<open>The analytics function (lines 158-393)\<close>

definition analytics :: "Snapshot list \<Rightarrow> Analytics option" where
  "analytics snapshots =
     (if length snapshots = 0 then None
      else
        let lastRows = rows (snapshots ! (length snapshots - 1));
            lrs = learners_of lastRows;
            cmp = compare_snapshots snapshots lrs;
            fin = finished_of snapshots lrs
        in Some \<lparr>totalLearners = length (new_Set (map User_ID lastRows)),
                 improvedLearners = length (fst cmp),
                 supportNeeded = snd cmp,
                 improvedList = fst cmp,
                 supportList = exclude_finished snapshots (fst fin) (snd cmp),
                 failedStudents = filter (\<lambda>l. avgCompletion l < 25 \<and> inProgress l > 0) lrs,
                 finishedStudents = fst fin,
                 consistentCompleters = snd fin,
                 averageCompletion =
                   (if length lrs > 0
                    then Math_round (of_int (foldl (\<lambda>s l. s + avgCompletion l) 0 lrs) / of_nat (length lrs))
                    else 0),
                 learners = lrs,
                 monthlyData = monthlyData_of snapshots\<rparr>)"

subsection \<open>The delta column of the CSV export (lines 1102-1108)\<close>

fun first_known :: "int option list \<Rightarrow> int option" where
  "first_known [] = None"
| "first_known (v # vs) = (case v of Some x \<Rightarrow> Some x | None \<Rightarrow> first_known vs)"

text \<open>The second loop scans the same list from its end.\<close>

definition last_known :: "int option list \<Rightarrow> int option" where
  "last_known recent = first_known (rev recent)"

definition rowBase_delta :: "Learner \<Rightarrow> string" where
  "rowBase_delta l =
     (let recent = (case recentAvgs l of None \<Rightarrow> [] | Some r \<Rightarrow> r);
          first = first_known recent;
          lst = last_known recent
      in case first of
           None \<Rightarrow> ''''
         | Some f \<Rightarrow> (case lst of None \<Rightarrow> '''' | Some la \<Rightarrow> Number_toString (la - f) @ ''%''))"

section \<open>Notions used to state the properties\<close>

text \<open>The rows of one learner in a snapshot, and the learner's per-snapshot average: the
  rounded mean of the completions of those rows, absent when the learner has no row.\<close>

definition rows_of :: "ExcelRow list \<Rightarrow> int \<Rightarrow> ExcelRow list" where
  "rows_of arr i = filter (\<lambda>r. User_ID r = i) arr"

definition mean_completion :: "ExcelRow list \<Rightarrow> int \<Rightarrow> int option" where
  "mean_completion arr i =
     (if rows_of arr i = [] then None
      else Some (Math_round (sum_list (map parseCompletion (rows_of arr i)) / of_nat (length (rows_of arr i)))))"

text \<open>The previous average \<open>v1\<close> and the current average \<open>v2\<close> of a learner: the averages in
  the second-to-last and in the last snapshot, 0 when the learner is absent there.\<close>

definition week1_of :: "Snapshot list \<Rightarrow> int \<Rightarrow> int" where
  "week1_of snapshots i =
     (case mean_completion (rows (snapshots ! (length snapshots - 2))) i of None \<Rightarrow> 0 | Some v \<Rightarrow> v)"

definition week2_of :: "Snapshot list \<Rightarrow> int \<Rightarrow> int" where
  "week2_of snapshots i =
     (case mean_completion (rows (snapshots ! (length snapshots - 1))) i of None \<Rightarrow> 0 | Some v \<Rightarrow> v)"

text \<open>What the comparison stores in a learner that it pushes to one of its two lists.\<close>

definition enriched_ok :: "Snapshot list \<Rightarrow> Learner \<Rightarrow> bool" where
  "enriched_ok snapshots e \<longleftrightarrow>
     recentAvgs e = Some (recentAvgs_of snapshots (lid e)) \<and>
     week1Avg e = Some (week1_of snapshots (lid e)) \<and>
     week2Avg e = Some (week2_of snapshots (lid e)) \<and>
     avgCompletion e = week2_of snapshots (lid e)"

text \<open>The number of snapshots of the whole sequence in which the learner's average is at
  least 100.\<close>

definition full_count :: "Snapshot list \<Rightarrow> int \<Rightarrow> nat" where
  "full_count snapshots i =
     length (filter (\<lambda>s. case mean_completion (rows s) i of None \<Rightarrow> False | Some v \<Rightarrow> v \<ge> 100) snapshots)"

text \<open>The invariant of the row aggregation: the record stored under key \<open>k\<close> has that id, at
  least one course, the sum of its courses' completions, and the three counters of its
  courses.\<close>

definition bucket_inv :: "int \<Rightarrow> LearnerProgress \<Rightarrow> bool" where
  "bucket_inv k l \<longleftrightarrow>
     lid l = k \<and> courses l \<noteq> [] \<and>
     totalCompletion l = sum_list (map completion (courses l)) \<and>
     completed l = length (filter (\<lambda>c. completion c \<ge> 100) (courses l)) \<and>
     inProgress l = length (filter (\<lambda>c. completion c \<ge> 1 \<and> completion c < 100) (courses l)) \<and>
     notStarted l = length (filter (\<lambda>c. completion c < 1) (courses l))"


subsection \<open>Example inputs\<close>

definition example_row :: "int \<Rightarrow> string \<Rightarrow> string \<Rightarrow> rat \<Rightarrow> ExcelRow" where
  "example_row i first course c =
     \<lparr>User_ID = i, User_First_Name = first, User_Last_Name = ''Doe'',
      User_Email = first @ ''@example.org'', District = ''North'', User_Status = ''Active'',
      User_Creation_Date = ''2024-01-01'', User_last_access_date = ''2024-02-01'',
      Curriculum_Title = course, Transcript_Status_Group = ''Registered'',
      Curriculum_Completion_Percentage = c\<rparr>"

text \<open>Alice improves from 40 to 60, Bob stays at 100, Carl falls from 80 to 50; learner 7
  appears in the oldest report only.\<close>

definition snapshot_old :: Snapshot where
  "snapshot_old = \<lparr>sname = ''Old'', rows = [example_row 7 ''Gone'' ''Math'' 10]\<rparr>"

definition snapshot_A :: Snapshot where
  "snapshot_A = \<lparr>sname = ''A'', rows =
     [example_row 1 ''Alice'' ''Math'' 40, example_row 2 ''Bob'' ''Math'' 100,
      example_row 3 ''Carl'' ''Math'' 80]\<rparr>"

definition snapshot_B :: Snapshot where
  "snapshot_B = \<lparr>sname = ''B'', rows =
     [example_row 1 ''Alice'' ''Math'' 60, example_row 2 ''Bob'' ''Math'' 100,
      example_row 3 ''Carl'' ''Math'' 50]\<rparr>"

definition two_snapshots :: "Snapshot list" where
  "two_snapshots = [snapshot_A, snapshot_B]"

definition three_snapshots :: "Snapshot list" where
  "three_snapshots = [snapshot_old, snapshot_A, snapshot_B]"


text \<open>One learner with four courses: one complete, one in progress, one at 0.5 and one at 0.\<close>

definition bucket_rows :: "ExcelRow list" where
  "bucket_rows =
     [example_row 9 ''Ivy'' ''Math'' 100, example_row 9 ''Ivy'' ''Art'' 50,
      example_row 9 ''Ivy'' ''Law'' (1 / 2), example_row 9 ''Ivy'' ''Music'' 0]"

section \<open>Auxiliary facts\<close>

subsection \<open>Sets and objects\<close>

lemma foldl_Set_add_set: "set (foldl Set_add acc xs) = set acc \<union> set xs"
  by (induction xs arbitrary: acc) (auto simp: Set_add_def)

lemma set_new_Set: "set (new_Set xs) = set xs"
  by (simp add: new_Set_def foldl_Set_add_set)

lemma set_Object_entries: "set (Object_entries obj) = set obj"
  by (auto simp: Object_entries_def)

lemma set_Object_keys: "set (Object_keys obj) = fst ` set obj"
  by (simp add: Object_keys_def set_Object_entries)

lemma set_Object_values: "set (Object_values obj) = snd ` set obj"
  by (simp add: Object_values_def set_Object_entries)

subsection \<open>The average map holds the per-snapshot averages\<close>

lemma avg_fold_distinct: "distinct (map fst (foldl avg_step [] arr))"
  by (induction arr rule: rev_induct) (simp_all add: avg_step_def Let_def distinct_update)

lemma avg_fold_lookup:
  "map_of (foldl avg_step [] arr) i =
     (if rows_of arr i = [] then None
      else Some \<lparr>total = sum_list (map parseCompletion (rows_of arr i)), count = length (rows_of arr i)\<rparr>)"
proof (induction arr rule: rev_induct)
  case Nil
  show ?case by (simp add: rows_of_def)
next
  case (snoc r arr)
  show ?case
  proof (cases "User_ID r = i")
    case True
    then show ?thesis using snoc
      by (simp add: avg_step_def Let_def update_conv rows_of_def)
  next
    case False
    then show ?thesis using snoc
      by (simp add: avg_step_def Let_def update_conv rows_of_def)
  qed
qed

lemma avg_round_fold_lookup:
  "map_of (foldl (\<lambda>avg n. case map_of m n of None \<Rightarrow> avg | Some tc \<Rightarrow> AList.update n (f tc) avg) [] ks) i =
     (if i \<in> set ks then map_option f (map_of m i) else None)"
proof (induction ks rule: rev_induct)
  case Nil
  show ?case by simp
next
  case (snoc k ks)
  show ?case
  proof (cases "map_of m k")
    case None
    then show ?thesis using snoc by auto
  next
    case (Some tc)
    then show ?thesis using snoc by (auto simp: update_conv)
  qed
qed

lemma avg_round_fold_distinct:
  "distinct (map fst (foldl (\<lambda>avg n. case map_of m n of None \<Rightarrow> avg | Some tc \<Rightarrow> AList.update n (f tc) avg) [] ks))"
  by (induction ks rule: rev_induct) (simp_all add: distinct_update split: option.splits)

lemma avgMap_distinct: "distinct (map fst (avgMap arr))"
  by (simp add: avgMap_def Let_def avg_round_fold_distinct)

lemma avgMap_lookup: "map_of (avgMap arr) i = mean_completion arr i"
proof -
  have keys: "i \<in> set (Object_keys (foldl avg_step [] arr)) \<longleftrightarrow> map_of (foldl avg_step [] arr) i \<noteq> None"
    by (simp add: set_Object_keys map_of_eq_None_iff)
  have m: "max 1 (length (rows_of arr i)) = length (rows_of arr i)" if "rows_of arr i \<noteq> []"
    using that by (cases "rows_of arr i") simp_all
  show ?thesis
    unfolding avgMap_def Let_def avg_round_fold_lookup
    using keys m
    by (auto simp: avg_fold_lookup mean_completion_def avg_of_def)
qed

lemma avgMap_keys: "fst ` set (avgMap arr) = User_ID ` set arr"
proof -
  have "fst ` set (avgMap arr) = dom (map_of (avgMap arr))"
    by (simp add: dom_map_of_conv_image_fst)
  also have "\<dots> = {i. rows_of arr i \<noteq> []}"
    by (auto simp: avgMap_lookup mean_completion_def dom_def)
  also have "\<dots> = User_ID ` set arr"
    by (auto simp: rows_of_def filter_empty_conv)
  finally show ?thesis .
qed

lemma avgMapsAll_eq: "avgMapsAll snapshots = map (\<lambda>s. avgMap (rows s)) snapshots"
  by (simp add: avgMapsAll_def avgMap_def)

subsection \<open>The row aggregation keeps its invariant\<close>

lemma learnerProgress_distinct: "distinct (map fst (learnerProgress_of arr))"
  unfolding learnerProgress_of_def
  by (induction arr rule: rev_induct) (simp_all add: learnerProgress_step_def Let_def distinct_update)

lemma learnerProgress_step_inv:
  assumes "\<forall>k l. map_of lp k = Some l \<longrightarrow> bucket_inv k l"
    and "map_of (learnerProgress_step lp row) k = Some l"
  shows "bucket_inv k l"
proof (cases "k = User_ID row")
  case False
  then have "map_of lp k = Some l" using assms(2)
    by (simp add: learnerProgress_step_def Let_def update_conv)
  then show ?thesis using assms(1) by blast
next
  case True
  show ?thesis
  proof (cases "map_of lp (User_ID row)")
    case None
    show ?thesis using assms(2)
      unfolding True learnerProgress_step_def Let_def None
      by (auto simp: update_conv bucket_inv_def split: if_splits)
  next
    case (Some l0)
    then have "bucket_inv (User_ID row) l0" using assms(1) by blast
    then show ?thesis using assms(2)
      unfolding True learnerProgress_step_def Let_def Some
      by (auto simp: update_conv bucket_inv_def split: if_splits)
  qed
qed

lemma learnerProgress_inv:
  "map_of (learnerProgress_of arr) k = Some l \<Longrightarrow> bucket_inv k l"
  unfolding learnerProgress_of_def
proof (induction arr arbitrary: k l rule: rev_induct)
  case Nil
  then show ?case by simp
next
  case (snoc r arr)
  show ?case
    by (rule learnerProgress_step_inv [of "foldl learnerProgress_step [] arr" r])
       (use snoc in auto)
qed

lemma fst_set_update: "fst ` set (AList.update k v al) = insert k (fst ` set al)"
  using dom_update [of k v al] by (simp add: dom_map_of_conv_image_fst)

lemma learnerProgress_step_keys:
  "fst ` set (learnerProgress_step lp row) = insert (User_ID row) (fst ` set lp)"
  by (simp add: learnerProgress_step_def Let_def fst_set_update)

lemma learnerProgress_keys: "fst ` set (learnerProgress_of arr) = User_ID ` set arr"
  unfolding learnerProgress_of_def
  by (induction arr rule: rev_induct) (simp_all add: learnerProgress_step_keys)

lemma learners_of_mem:
  "l \<in> set (learners_of arr) \<longleftrightarrow> (\<exists>lp. map_of (learnerProgress_of arr) (lid lp) = Some lp \<and> bucket_inv (lid lp) lp \<and> l = to_Learner lp)"
proof
  assume "l \<in> set (learners_of arr)"
  then obtain k lp where mem: "(k, lp) \<in> set (learnerProgress_of arr)" and l: "l = to_Learner lp"
    by (auto simp: learners_of_def set_Object_values)
  then have look: "map_of (learnerProgress_of arr) k = Some lp"
    by (simp add: learnerProgress_distinct)
  then have "bucket_inv k lp" by (rule learnerProgress_inv)
  then show "\<exists>lp. map_of (learnerProgress_of arr) (lid lp) = Some lp \<and> bucket_inv (lid lp) lp \<and> l = to_Learner lp"
    using look l by (auto simp: bucket_inv_def)
next
  assume "\<exists>lp. map_of (learnerProgress_of arr) (lid lp) = Some lp \<and> bucket_inv (lid lp) lp \<and> l = to_Learner lp"
  then obtain lp where "map_of (learnerProgress_of arr) (lid lp) = Some lp" "l = to_Learner lp" by blast
  then have "(lid lp, lp) \<in> set (learnerProgress_of arr)" by (simp add: map_of_SomeD)
  then show "l \<in> set (learners_of arr)" using \<open>l = to_Learner lp\<close>
    by (force simp: learners_of_def set_Object_values)
qed

lemma lid_to_Learner: "lid (to_Learner lp) = lid lp"
  by (simp add: to_Learner_def)

lemma learners_of_ids: "lid ` set (learners_of arr) = User_ID ` set arr"
proof -
  have "lid ` set (learners_of arr) = fst ` set (learnerProgress_of arr)"
  proof (intro set_eqI iffI)
    fix i assume "i \<in> lid ` set (learners_of arr)"
    then obtain lp where "map_of (learnerProgress_of arr) (lid lp) = Some lp" "i = lid lp"
      by (auto simp: learners_of_mem lid_to_Learner)
    then show "i \<in> fst ` set (learnerProgress_of arr)"
      by (metis map_of_SomeD fst_conv image_eqI)
  next
    fix i assume "i \<in> fst ` set (learnerProgress_of arr)"
    then obtain lp where mem: "(i, lp) \<in> set (learnerProgress_of arr)" by auto
    then have look: "map_of (learnerProgress_of arr) i = Some lp" by (simp add: learnerProgress_distinct)
    then have "lid lp = i" using learnerProgress_inv by (auto simp: bucket_inv_def)
    then have "to_Learner lp \<in> set (learners_of arr)" using look learnerProgress_inv [OF look]
      by (auto simp: learners_of_mem)
    then show "i \<in> lid ` set (learners_of arr)" using \<open>lid lp = i\<close>
      by (metis image_eqI lid_to_Learner)
  qed
  then show ?thesis by (simp add: learnerProgress_keys)
qed

subsection \<open>The comparison loop\<close>

lemma find_lid: "find (\<lambda>l. lid l = i) lrs = Some e \<Longrightarrow> lid e = i"
  by (auto simp: find_Some_iff)

lemma compare_step_avgs:
  "or_zero (map_of (avgMap (rows (snapshots ! (length snapshots - 2)))) i) = week1_of snapshots i"
  "or_zero (map_of (avgMap (rows (snapshots ! (length snapshots - 1)))) i) = week2_of snapshots i"
  by (simp_all add: week1_of_def week2_of_def or_zero_def avgMap_lookup)

lemma compare_step_improved:
  assumes "week1_of snapshots i < week2_of snapshots i"
  shows "\<exists>e. lid e = i \<and> enriched_ok snapshots e \<and>
           compare_step snapshots lrs st i = (fst st @ [e], snd st)"
proof (cases "find (\<lambda>l. lid l = i) lrs")
  case None
  show ?thesis
    unfolding compare_step_def Let_def None option.case compare_step_avgs
    using assms by (simp add: enriched_ok_def)
next
  case (Some existing)
  then have "lid existing = i" by (rule find_lid)
  then show ?thesis
    unfolding compare_step_def Let_def Some option.case compare_step_avgs
    using assms by (simp add: enriched_ok_def)
qed

lemma compare_step_support:
  assumes "week1_of snapshots i = week2_of snapshots i"
  shows "\<exists>e. lid e = i \<and> enriched_ok snapshots e \<and>
           compare_step snapshots lrs st i = (fst st, snd st @ [e])"
proof (cases "find (\<lambda>l. lid l = i) lrs")
  case None
  show ?thesis
    unfolding compare_step_def Let_def None option.case compare_step_avgs
    using assms by (simp add: enriched_ok_def)
next
  case (Some existing)
  then have "lid existing = i" by (rule find_lid)
  then show ?thesis
    unfolding compare_step_def Let_def Some option.case compare_step_avgs
    using assms by (simp add: enriched_ok_def)
qed

lemma compare_step_regressed:
  assumes "week2_of snapshots i < week1_of snapshots i"
  shows "compare_step snapshots lrs st i = st"
proof (cases "find (\<lambda>l. lid l = i) lrs")
  case None
  show ?thesis
    unfolding compare_step_def Let_def None option.case compare_step_avgs
    using assms by simp
next
  case (Some existing)
  show ?thesis
    unfolding compare_step_def Let_def Some option.case compare_step_avgs
    using assms by simp
qed

lemma compare_fold_fst:
  "map lid (fst (foldl (compare_step snapshots lrs) st ids)) =
     map lid (fst st) @ filter (\<lambda>i. week1_of snapshots i < week2_of snapshots i) ids"
proof (induction ids arbitrary: st)
  case Nil
  show ?case by simp
next
  case (Cons i ids)
  consider "week1_of snapshots i < week2_of snapshots i"
    | "week1_of snapshots i = week2_of snapshots i"
    | "week2_of snapshots i < week1_of snapshots i"
    by linarith
  then show ?case
  proof cases
    case 1
    then obtain e where "lid e = i" "compare_step snapshots lrs st i = (fst st @ [e], snd st)"
      using compare_step_improved [of snapshots i lrs st] by blast
    then show ?thesis using 1 by (simp add: Cons.IH)
  next
    case 2
    then obtain e where "lid e = i" "compare_step snapshots lrs st i = (fst st, snd st @ [e])"
      using compare_step_support [of snapshots i lrs st] by blast
    then show ?thesis using 2 by (simp add: Cons.IH)
  next
    case 3
    then show ?thesis by (simp add: Cons.IH compare_step_regressed)
  qed
qed

lemma compare_fold_snd:
  "map lid (snd (foldl (compare_step snapshots lrs) st ids)) =
     map lid (snd st) @ filter (\<lambda>i. week1_of snapshots i = week2_of snapshots i) ids"
proof (induction ids arbitrary: st)
  case Nil
  show ?case by simp
next
  case (Cons i ids)
  consider "week1_of snapshots i < week2_of snapshots i"
    | "week1_of snapshots i = week2_of snapshots i"
    | "week2_of snapshots i < week1_of snapshots i"
    by linarith
  then show ?case
  proof cases
    case 1
    then obtain e where "lid e = i" "compare_step snapshots lrs st i = (fst st @ [e], snd st)"
      using compare_step_improved [of snapshots i lrs st] by blast
    then show ?thesis using 1 by (simp add: Cons.IH)
  next
    case 2
    then obtain e where "lid e = i" "compare_step snapshots lrs st i = (fst st, snd st @ [e])"
      using compare_step_support [of snapshots i lrs st] by blast
    then show ?thesis using 2 by (simp add: Cons.IH)
  next
    case 3
    then show ?thesis by (simp add: Cons.IH compare_step_regressed)
  qed
qed

lemma compare_fold_ok:
  "\<forall>e \<in> set (fst st) \<union> set (snd st). enriched_ok snapshots e \<Longrightarrow>
   \<forall>e \<in> set (fst (foldl (compare_step snapshots lrs) st ids))
        \<union> set (snd (foldl (compare_step snapshots lrs) st ids)). enriched_ok snapshots e"
proof (induction ids arbitrary: st)
  case Nil
  then show ?case by simp
next
  case (Cons i ids)
  consider "week1_of snapshots i < week2_of snapshots i"
    | "week1_of snapshots i = week2_of snapshots i"
    | "week2_of snapshots i < week1_of snapshots i"
    by linarith
  then have "\<forall>e \<in> set (fst (compare_step snapshots lrs st i)) \<union> set (snd (compare_step snapshots lrs st i)).
               enriched_ok snapshots e"
  proof cases
    case 1
    then obtain e where "enriched_ok snapshots e" "compare_step snapshots lrs st i = (fst st @ [e], snd st)"
      using compare_step_improved [of snapshots i lrs st] by blast
    then show ?thesis using Cons.prems by auto
  next
    case 2
    then obtain e where "enriched_ok snapshots e" "compare_step snapshots lrs st i = (fst st, snd st @ [e])"
      using compare_step_support [of snapshots i lrs st] by blast
    then show ?thesis using Cons.prems by auto
  next
    case 3
    then show ?thesis using Cons.prems by (simp add: compare_step_regressed)
  qed
  then show ?case using Cons.IH [of "compare_step snapshots lrs st i"] by simp
qed

lemma compare_snapshots_ids:
  assumes "2 \<le> length snapshots"
  shows "map lid (fst (compare_snapshots snapshots lrs)) =
           filter (\<lambda>i. week1_of snapshots i < week2_of snapshots i) (allIds snapshots)"
    and "map lid (snd (compare_snapshots snapshots lrs)) =
           filter (\<lambda>i. week1_of snapshots i = week2_of snapshots i) (allIds snapshots)"
    and "e \<in> set (fst (compare_snapshots snapshots lrs)) \<union> set (snd (compare_snapshots snapshots lrs))
           \<Longrightarrow> enriched_ok snapshots e"
  using assms compare_fold_fst [of snapshots lrs "([], [])" "allIds snapshots"]
    compare_fold_snd [of snapshots lrs "([], [])" "allIds snapshots"]
    compare_fold_ok [of "([], [])" snapshots lrs "allIds snapshots"]
  by (simp_all add: compare_snapshots_def)


lemma set_allIds: "set (allIds snapshots) = (\<Union>s \<in> set snapshots. User_ID ` set (rows s))"
  by (simp add: allIds_def set_new_Set set_Object_keys avgMap_keys)

lemma recentAvgs_of_eq:
  "recentAvgs_of snapshots i =
     map (\<lambda>s. mean_completion (rows s) i) (drop (length snapshots - 4) snapshots)"
proof -
  have start: "nat (max 0 (int (length snapshots) - 4)) = length snapshots - 4" by simp
  show ?thesis
    unfolding recentAvgs_of_def Let_def start
    by (rule nth_equalityI) (simp_all add: avgMap_lookup)
qed

subsection \<open>The finished scan\<close>

lemma count100_fold:
  "foldl (\<lambda>c m. if or_zero (map_of m i) \<ge> 100 then c + 1 else c) c0 maps =
     c0 + length (filter (\<lambda>m. or_zero (map_of m i) \<ge> 100) maps)"
  by (induction maps arbitrary: c0) simp_all

lemma count100_eq: "count100 (avgMapsAll snapshots) i = full_count snapshots i"
proof -
  have eq: "(\<lambda>s. or_zero (map_of (avgMap (rows s)) i) \<ge> 100) =
        (\<lambda>s. case mean_completion (rows s) i of None \<Rightarrow> False | Some v \<Rightarrow> v \<ge> 100)"
    by (rule ext) (simp add: avgMap_lookup or_zero_def split: option.splits)
  show ?thesis
    by (simp add: count100_def count100_fold avgMapsAll_eq full_count_def filter_map o_def eq)
qed

lemma finished_fold:
  "(fst st = snd st \<longrightarrow>
      fst (foldl (finished_step snapshots lrs) st ids) = snd (foldl (finished_step snapshots lrs) st ids)) \<and>
   lid ` set (fst (foldl (finished_step snapshots lrs) st ids)) =
     lid ` set (fst st) \<union> {i \<in> set ids. 2 \<le> full_count snapshots i \<and> i \<in> lid ` set lrs} \<and>
   set (fst (foldl (finished_step snapshots lrs) st ids)) \<subseteq> set (fst st) \<union> set lrs"
proof (induction ids arbitrary: st)
  case Nil
  show ?case by simp
next
  case (Cons i ids)
  show ?case
  proof (cases "find (\<lambda>l. lid l = i) lrs")
    case None
    then have "i \<notin> lid ` set lrs" by (auto simp: find_None_iff)
    moreover have "finished_step snapshots lrs st i = st"
      by (simp add: finished_step_def None)
    ultimately show ?thesis using Cons.IH [of st] by auto
  next
    case (Some existing)
    then have ex: "lid existing = i" "existing \<in> set lrs" by (auto simp: find_Some_iff)
    have step: "finished_step snapshots lrs st i =
        (if 2 \<le> full_count snapshots i then (fst st @ [existing], snd st @ [existing]) else st)"
      by (simp add: finished_step_def Some count100_eq)
    show ?thesis
      using Cons.IH [of "finished_step snapshots lrs st i"] ex
      by (auto simp: step)
  qed
qed

lemma finished_of_props:
  assumes "snapshots \<noteq> []"
  shows "fst (finished_of snapshots lrs) = snd (finished_of snapshots lrs)"
    and "lid ` set (fst (finished_of snapshots lrs)) = {i \<in> lid ` set lrs. 2 \<le> full_count snapshots i}"
    and "set (fst (finished_of snapshots lrs)) \<subseteq> set lrs"
  using assms finished_fold [of "([], [])" snapshots lrs "new_Set (map lid lrs)"]
  by (auto simp: finished_of_def set_new_Set)


lemma exclude_finished_eq:
  "snapshots \<noteq> [] \<Longrightarrow>
   exclude_finished snapshots fin supp = filter (\<lambda>s. lid s \<notin> lid ` set fin) supp"
  by (cases fin) (simp_all add: exclude_finished_def set_new_Set)

subsection \<open>The fields of the result\<close>

lemma analytics_Some:
  "snapshots \<noteq> [] \<Longrightarrow> \<exists>a. analytics snapshots = Some a"
  by (simp add: analytics_def Let_def)

lemma analytics_fields:
  assumes "analytics snapshots = Some a"
  shows "snapshots \<noteq> []"
    and "learners a = learners_of (rows (snapshots ! (length snapshots - 1)))"
    and "improvedList a = fst (compare_snapshots snapshots (learners a))"
    and "supportNeeded a = snd (compare_snapshots snapshots (learners a))"
    and "finishedStudents a = fst (finished_of snapshots (learners a))"
    and "consistentCompleters a = snd (finished_of snapshots (learners a))"
    and "supportList a = exclude_finished snapshots (finishedStudents a) (supportNeeded a)"
  using assms by (auto simp: analytics_def Let_def split: if_splits)

lemma mean_completion_None: "mean_completion arr i = None \<longleftrightarrow> i \<notin> User_ID ` set arr"
  by (auto simp: mean_completion_def rows_of_def filter_empty_conv)

lemma compare_snapshots_idsets:
  assumes "2 \<le> length snapshots"
  shows "lid ` set (fst (compare_snapshots snapshots lrs)) =
           {i \<in> set (allIds snapshots). week1_of snapshots i < week2_of snapshots i}"
    and "lid ` set (snd (compare_snapshots snapshots lrs)) =
           {i \<in> set (allIds snapshots). week1_of snapshots i = week2_of snapshots i}"
proof -
  have "lid ` set (fst (compare_snapshots snapshots lrs)) = set (map lid (fst (compare_snapshots snapshots lrs)))"
    by simp
  then show "lid ` set (fst (compare_snapshots snapshots lrs)) =
           {i \<in> set (allIds snapshots). week1_of snapshots i < week2_of snapshots i}"
    unfolding compare_snapshots_ids(1) [OF assms] by simp
  have "lid ` set (snd (compare_snapshots snapshots lrs)) = set (map lid (snd (compare_snapshots snapshots lrs)))"
    by simp
  then show "lid ` set (snd (compare_snapshots snapshots lrs)) =
           {i \<in> set (allIds snapshots). week1_of snapshots i = week2_of snapshots i}"
    unfolding compare_snapshots_ids(2) [OF assms] by simp
qed

lemma supportList_filter:
  assumes "analytics snapshots = Some a"
  shows "supportList a = filter (\<lambda>s. lid s \<notin> lid ` set (finishedStudents a)) (supportNeeded a)"
  using analytics_fields(1,7) [OF assms] by (simp add: exclude_finished_eq)

lemma finished_ids:
  assumes "analytics snapshots = Some a"
  shows "lid ` set (finishedStudents a) = {i \<in> lid ` set (learners a). 2 \<le> full_count snapshots i}"
  using analytics_fields(1,5) [OF assms] finished_of_props(2) [of snapshots "learners a"] by simp

lemma learners_ids:
  assumes "analytics snapshots = Some a"
  shows "lid ` set (learners a) = User_ID ` set (rows (snapshots ! (length snapshots - 1)))"
  using analytics_fields(2) [OF assms] by (simp add: learners_of_ids)




lemma filter_ids_disjoint:
  fixes fin xs :: "Learner list"
  shows "lid ` set fin \<inter> lid ` set (filter (\<lambda>s. lid s \<notin> lid ` set fin) xs) = {}"
proof (rule ccontr)
  assume "lid ` set fin \<inter> lid ` set (filter (\<lambda>s. lid s \<notin> lid ` set fin) xs) \<noteq> {}"
  then obtain i where "i \<in> lid ` set fin" "i \<in> lid ` set (filter (\<lambda>s. lid s \<notin> lid ` set fin) xs)"
    by blast
  then obtain s where "s \<in> set (filter (\<lambda>s. lid s \<notin> lid ` set fin) xs)" "i = lid s"
    by blast
  then have "i \<notin> lid ` set fin" by simp
  then show False using \<open>i \<in> lid ` set fin\<close> by simp
qed

subsection \<open>Buckets and rounding\<close>

lemma three_buckets:
  fixes cs :: "Course list"
  shows "length (filter (\<lambda>c. completion c \<ge> 100) cs)
       + length (filter (\<lambda>c. completion c \<ge> 1 \<and> completion c < 100) cs)
       + length (filter (\<lambda>c. completion c < 1) cs) = length cs"
  by (induction cs) auto

lemma learners_of_inv:
  assumes "l \<in> set (learners_of rs)"
  obtains lp where "l = to_Learner lp" and "bucket_inv (lid lp) lp"
  using assms unfolding learners_of_mem by blast



subsection \<open>The delta cell of the export\<close>

text \<open>The cell is empty when no recent average is known; otherwise it is the text of the
  last known average minus the first known one, followed by a percent sign. It never
  holds a plus sign.\<close>

lemma first_known_None: "first_known r = None \<longleftrightarrow> (\<forall>v \<in> set r. v = None)"
  by (induction r) (auto split: option.splits)

lemma last_known_None: "last_known r = None \<longleftrightarrow> (\<forall>v \<in> set r. v = None)"
  by (simp add: last_known_def first_known_None)

lemma first_known_Some:
  "first_known r = Some x \<longleftrightarrow> (\<exists>pre post. r = pre @ Some x # post \<and> (\<forall>v \<in> set pre. v = None))"
proof (induction r)
  case Nil
  show ?case by simp
next
  case (Cons v r)
  show ?case
  proof (cases v)
    case None
    have "(\<exists>pre post. None # r = pre @ Some x # post \<and> (\<forall>v \<in> set pre. v = None)) \<longleftrightarrow>
          (\<exists>pre post. r = pre @ Some x # post \<and> (\<forall>v \<in> set pre. v = None))"
    proof
      assume "\<exists>pre post. None # r = pre @ Some x # post \<and> (\<forall>v \<in> set pre. v = None)"
      then obtain pre post where p: "None # r = pre @ Some x # post" "\<forall>v \<in> set pre. v = None"
        by blast
      then obtain pre' where "pre = None # pre'" by (cases pre) auto
      then show "\<exists>pre post. r = pre @ Some x # post \<and> (\<forall>v \<in> set pre. v = None)"
        using p by auto
    next
      assume "\<exists>pre post. r = pre @ Some x # post \<and> (\<forall>v \<in> set pre. v = None)"
      then obtain pre post where "r = pre @ Some x # post" "\<forall>v \<in> set pre. v = None" by blast
      then have "None # r = (None # pre) @ Some x # post \<and> (\<forall>v \<in> set (None # pre). v = None)"
        by simp
      then show "\<exists>pre post. None # r = pre @ Some x # post \<and> (\<forall>v \<in> set pre. v = None)"
        by blast
    qed
    then show ?thesis using Cons None by simp
  next
    case (Some y)
    have "(\<exists>pre post. Some y # r = pre @ Some x # post \<and> (\<forall>v \<in> set pre. v = None)) \<longleftrightarrow> y = x"
    proof
      assume "\<exists>pre post. Some y # r = pre @ Some x # post \<and> (\<forall>v \<in> set pre. v = None)"
      then obtain pre post where p: "Some y # r = pre @ Some x # post" "\<forall>v \<in> set pre. v = None"
        by blast
      then have "pre = []" by (cases pre) auto
      then show "y = x" using p by simp
    next
      assume "y = x"
      then have "Some y # r = [] @ Some x # r \<and> (\<forall>v \<in> set []. v = None)" by simp
      then show "\<exists>pre post. Some y # r = pre @ Some x # post \<and> (\<forall>v \<in> set pre. v = None)"
        by blast
    qed
    then show ?thesis using Some by simp
  qed
qed

lemma rowBase_delta_unknown:
  "(\<forall>r. recentAvgs l = Some r \<longrightarrow> (\<forall>v \<in> set r. v = None)) \<Longrightarrow> rowBase_delta l = ''''"
  by (cases "recentAvgs l") (simp_all add: rowBase_delta_def Let_def first_known_None [symmetric])

lemma rowBase_delta_known:
  assumes "recentAvgs l = Some r" and "first_known r = Some f" and "last_known r = Some la"
  shows "rowBase_delta l = Number_toString (la - f) @ ''%''"
  using assms by (simp add: rowBase_delta_def Let_def)

lemma string_of_nat_digits: "set (string_of_nat n) \<subseteq> set ''0123456789''"
proof (induction n rule: string_of_nat.induct)
  case (1 n)
  have d: "digit_char k \<in> set ''0123456789''" if "k < 10" for k
  proof -
    have "k < length ''0123456789''" using that by simp
    then show ?thesis unfolding digit_char_def by (rule nth_mem)
  qed
  show ?case
  proof (cases "n < 10")
    case True
    then show ?thesis using d [of n] by (subst string_of_nat.simps) simp
  next
    case False
    have "n mod 10 < 10" by simp
    then have "digit_char (n mod 10) \<in> set ''0123456789''" by (rule d)
    then show ?thesis using False 1
      by (subst string_of_nat.simps) simp
  qed
qed

lemma rowBase_delta_no_plus: "CHR ''+'' \<notin> set (rowBase_delta l)"
proof -
  have n: "CHR ''+'' \<notin> set (string_of_nat k)" for k
    using string_of_nat_digits [of k] by auto
  have "CHR ''+'' \<notin> set (Number_toString i)" for i
    by (simp add: Number_toString_def n)
  then show ?thesis
    by (simp add: rowBase_delta_def Let_def split: option.splits)
qed

section \<open>The claims\<close>



text \<open>
  C2, as amended. With at least two snapshots, the learner ids considered by the comparison
  are exactly the ids that appear in some snapshot of the whole sequence, and both lists
  hold considered ids only. An id that appears only in snapshots older than the last two
  (so \<open>v1 = v2 = 0\<close>) is never in the improved list and is in the support list, before
  and after the finished exclusion.
\<close>

theorem considered_ids_all_snapshots:
  assumes "2 \<le> length snapshots" and "analytics snapshots = Some a"
  shows "set (allIds snapshots) = (\<Union>s \<in> set snapshots. User_ID ` set (rows s)) \<and>
         lid ` set (improvedList a) \<union> lid ` set (supportNeeded a) \<subseteq> set (allIds snapshots) \<and>
         (\<forall>i \<in> (\<Union>s \<in> set (take (length snapshots - 2) snapshots). User_ID ` set (rows s)).
            i \<notin> User_ID ` set (rows (snapshots ! (length snapshots - 2))) \<longrightarrow>
            i \<notin> User_ID ` set (rows (snapshots ! (length snapshots - 1))) \<longrightarrow>
            i \<notin> lid ` set (improvedList a) \<and> i \<in> lid ` set (supportNeeded a) \<and>
            i \<in> lid ` set (supportList a))"
proof -
  have imp: "lid ` set (improvedList a) =
      {i \<in> set (allIds snapshots). week1_of snapshots i < week2_of snapshots i}"
    using compare_snapshots_idsets(1) [OF assms(1)] analytics_fields(3) [OF assms(2)] by simp
  have sup: "lid ` set (supportNeeded a) =
      {i \<in> set (allIds snapshots). week1_of snapshots i = week2_of snapshots i}"
    using compare_snapshots_idsets(2) [OF assms(1)] analytics_fields(4) [OF assms(2)] by simp
  have sub: "lid ` set (improvedList a) \<union> lid ` set (supportNeeded a) \<subseteq> set (allIds snapshots)"
    unfolding imp sup by blast
  have old: "i \<notin> lid ` set (improvedList a) \<and> i \<in> lid ` set (supportNeeded a) \<and>
             i \<in> lid ` set (supportList a)"
    if mem: "i \<in> (\<Union>s \<in> set (take (length snapshots - 2) snapshots). User_ID ` set (rows s))"
      and prev: "i \<notin> User_ID ` set (rows (snapshots ! (length snapshots - 2)))"
      and curr: "i \<notin> User_ID ` set (rows (snapshots ! (length snapshots - 1)))" for i
  proof -
    have considered: "i \<in> set (allIds snapshots)"
      using mem set_take_subset [of "length snapshots - 2" snapshots]
      unfolding set_allIds by blast
    have w1: "week1_of snapshots i = 0"
      using prev by (simp add: week1_of_def mean_completion_None [symmetric])
    have w2: "week2_of snapshots i = 0"
      using curr by (simp add: week2_of_def mean_completion_None [symmetric])
    have not_imp: "i \<notin> lid ` set (improvedList a)"
      unfolding imp using w1 w2 by simp
    have "i \<in> lid ` set (supportNeeded a)"
      unfolding sup using w1 w2 considered by simp
    then obtain e where e: "e \<in> set (supportNeeded a)" "lid e = i" by auto
    have "i \<notin> lid ` set (learners a)"
      using curr by (simp add: learners_ids [OF assms(2)])
    then have "i \<notin> lid ` set (finishedStudents a)"
      unfolding finished_ids [OF assms(2)] by simp
    then have "e \<in> set (supportList a)"
      using e by (simp add: supportList_filter [OF assms(2)])
    then have "i \<in> lid ` set (supportList a)"
      using e(2) by blast
    then show ?thesis using not_imp \<open>i \<in> lid ` set (supportNeeded a)\<close> by simp
  qed
  show ?thesis
  proof (intro conjI ballI impI)
    show "set (allIds snapshots) = (\<Union>s \<in> set snapshots. User_ID ` set (rows s))"
      by (rule set_allIds)
    show "lid ` set (improvedList a) \<union> lid ` set (supportNeeded a) \<subseteq> set (allIds snapshots)"
      by (rule sub)
  next
    fix i
    assume "i \<in> (\<Union>s \<in> set (take (length snapshots - 2) snapshots). User_ID ` set (rows s))"
      and "i \<notin> User_ID ` set (rows (snapshots ! (length snapshots - 2)))"
      and "i \<notin> User_ID ` set (rows (snapshots ! (length snapshots - 1)))"
    then have r: "i \<notin> lid ` set (improvedList a) \<and> i \<in> lid ` set (supportNeeded a) \<and>
             i \<in> lid ` set (supportList a)"
      by (rule old)
    from r show "i \<notin> lid ` set (improvedList a)" by (rule conjunct1)
    from r show "i \<in> lid ` set (supportNeeded a)" by simp
    from r show "i \<in> lid ` set (supportList a)" by simp
  qed
qed

theorem considered_ids_all_snapshots_witness:
  "2 \<le> length three_snapshots \<and> analytics three_snapshots \<noteq> None \<and>
   set (allIds three_snapshots) = {7, 1, 2, 3} \<and>
   7 \<in> (\<Union>s \<in> set (take (length three_snapshots - 2) three_snapshots). User_ID ` set (rows s)) \<and>
   7 \<notin> User_ID ` set (rows (three_snapshots ! (length three_snapshots - 2))) \<and>
   7 \<notin> User_ID ` set (rows (three_snapshots ! (length three_snapshots - 1))) \<and>
   7 \<notin> lid ` set (improvedList (the (analytics three_snapshots))) \<and>
   7 \<in> lid ` set (supportNeeded (the (analytics three_snapshots))) \<and>
   7 \<in> lid ` set (supportList (the (analytics three_snapshots)))"
proof -
  have len: "2 \<le> length three_snapshots" by code_simp
  have res: "analytics three_snapshots = Some (the (analytics three_snapshots))" by code_simp
  have nn: "analytics three_snapshots \<noteq> None" using res by (metis option.distinct(1))
  have all: "(\<Union>s \<in> set three_snapshots. User_ID ` set (rows s)) = {7, 1, 2, 3}" by code_simp
  have mem: "7 \<in> (\<Union>s \<in> set (take (length three_snapshots - 2) three_snapshots). User_ID ` set (rows s))"
    by code_simp
  have prev: "7 \<notin> User_ID ` set (rows (three_snapshots ! (length three_snapshots - 2)))" by code_simp
  have curr: "7 \<notin> User_ID ` set (rows (three_snapshots ! (length three_snapshots - 1)))" by code_simp
  note inst = considered_ids_all_snapshots [OF len res]
  from inst have ids: "set (allIds three_snapshots) = {7, 1, 2, 3}"
    unfolding all by (rule conjunct1)
  note inst [THEN conjunct2, THEN conjunct2]
  from this mem have "7 \<notin> User_ID ` set (rows (three_snapshots ! (length three_snapshots - 2))) \<longrightarrow>
            7 \<notin> User_ID ` set (rows (three_snapshots ! (length three_snapshots - 1))) \<longrightarrow>
            7 \<notin> lid ` set (improvedList (the (analytics three_snapshots))) \<and>
            7 \<in> lid ` set (supportNeeded (the (analytics three_snapshots))) \<and>
            7 \<in> lid ` set (supportList (the (analytics three_snapshots)))"
    by (rule bspec)
  with prev curr have concl: "7 \<notin> lid ` set (improvedList (the (analytics three_snapshots))) \<and>
            7 \<in> lid ` set (supportNeeded (the (analytics three_snapshots))) \<and>
            7 \<in> lid ` set (supportList (the (analytics three_snapshots)))"
    by blast
  show ?thesis
    by (intro conjI len nn ids mem prev curr concl [THEN conjunct1]
          concl [THEN conjunct2, THEN conjunct1] concl [THEN conjunct2, THEN conjunct2])
qed

text \<open>
  The claim as first stated restricts the considered ids to the last two snapshots and
  keeps older ids out of both lists. In \<open>three_snapshots\<close> learner 7 has a row in the oldest
  report only: it is considered, and it is in the support list.
\<close>

theorem considered_ids_prev_curr_counterexample:
  "2 \<le> length three_snapshots \<and>
   7 \<in> set (allIds three_snapshots) \<and>
   7 \<notin> User_ID ` set (rows (three_snapshots ! (length three_snapshots - 2)))
       \<union> User_ID ` set (rows (three_snapshots ! (length three_snapshots - 1))) \<and>
   7 \<in> lid ` set (supportNeeded (the (analytics three_snapshots))) \<and>
   7 \<in> lid ` set (supportList (the (analytics three_snapshots)))"
  by code_simp






text \<open>
  C5. No learner id of the finished list is in the returned support list: the support list
  is the list before the exclusion without the learners whose id is finished.
\<close>

theorem finished_excluded_from_support:
  assumes "analytics snapshots = Some a"
  shows "lid ` set (finishedStudents a) \<inter> lid ` set (supportList a) = {} \<and>
         set (supportList a) = {s \<in> set (supportNeeded a). lid s \<notin> lid ` set (finishedStudents a)}"
proof
  show "lid ` set (finishedStudents a) \<inter> lid ` set (supportList a) = {}"
    unfolding supportList_filter [OF assms] by (rule filter_ids_disjoint)
  show "set (supportList a) = {s \<in> set (supportNeeded a). lid s \<notin> lid ` set (finishedStudents a)}"
    unfolding supportList_filter [OF assms] by simp
qed

theorem finished_excluded_from_support_witness:
  "analytics two_snapshots \<noteq> None \<and>
   map lid (finishedStudents (the (analytics two_snapshots))) = [2] \<and>
   map lid (supportNeeded (the (analytics two_snapshots))) = [2] \<and>
   lid ` set (finishedStudents (the (analytics two_snapshots)))
     \<inter> lid ` set (supportList (the (analytics two_snapshots))) = {} \<and>
   2 \<notin> lid ` set (supportList (the (analytics two_snapshots)))"
proof -
  have res: "analytics two_snapshots = Some (the (analytics two_snapshots))" by code_simp
  have nn: "analytics two_snapshots \<noteq> None" using res by (metis option.distinct(1))
  have f: "map lid (finishedStudents (the (analytics two_snapshots))) = [2]" by code_simp
  have s: "map lid (supportNeeded (the (analytics two_snapshots))) = [2]" by code_simp
  note inst = finished_excluded_from_support [OF res, THEN conjunct1]
  have "lid ` set (finishedStudents (the (analytics two_snapshots))) = set (map lid (finishedStudents (the (analytics two_snapshots))))"
    by simp
  then have "2 \<in> lid ` set (finishedStudents (the (analytics two_snapshots)))"
    unfolding f by simp
  then have n: "2 \<notin> lid ` set (supportList (the (analytics two_snapshots)))"
    using inst by blast
  show ?thesis by (intro conjI nn f s inst n)
qed

text \<open>
  C6. The analytics of the empty sequence is \<open>None\<close> (the source returns \<^verbatim>\<open>null\<close>), and
  the analytics of a non-empty sequence is a structure.
\<close>

theorem analytics_null_iff_empty:
  "analytics [] = None \<and> (snapshots \<noteq> [] \<longrightarrow> analytics snapshots \<noteq> None)"
  by (simp add: analytics_def Let_def)

theorem analytics_null_iff_empty_witness:
  "two_snapshots \<noteq> [] \<and> analytics two_snapshots \<noteq> None \<and> analytics [] = None"
proof -
  have ne: "two_snapshots \<noteq> []" by (simp add: two_snapshots_def)
  note inst = analytics_null_iff_empty [of two_snapshots]
  from inst [THEN conjunct2] ne have "analytics two_snapshots \<noteq> None" by (rule mp)
  then show ?thesis using ne inst [THEN conjunct1] by simp
qed

text \<open>
  C7. For every learner record that the row aggregation produces, the three counters add up
  to the number of its courses, and each counts the courses of one bucket: completion at
  least 100; at least 1 and below 100; below 1 (the values strictly between 0 and 1
  included).
\<close>

theorem bucket_partition:
  assumes "l \<in> set (learners_of rs)"
  shows "completed l + inProgress l + notStarted l = length (courses l) \<and>
         completed l = length (filter (\<lambda>c. completion c \<ge> 100) (courses l)) \<and>
         inProgress l = length (filter (\<lambda>c. completion c \<ge> 1 \<and> completion c < 100) (courses l)) \<and>
         notStarted l = length (filter (\<lambda>c. completion c < 1) (courses l))"
proof -
  obtain lp where l: "l = to_Learner lp" and inv: "bucket_inv (lid lp) lp"
    using assms by (rule learners_of_inv)
  have c: "completed l = length (filter (\<lambda>c. completion c \<ge> 100) (courses l))"
    and p: "inProgress l = length (filter (\<lambda>c. completion c \<ge> 1 \<and> completion c < 100) (courses l))"
    and n: "notStarted l = length (filter (\<lambda>c. completion c < 1) (courses l))"
    using inv by (simp_all add: l to_Learner_def bucket_inv_def)
  have "completed l + inProgress l + notStarted l = length (courses l)"
    unfolding c p n by (rule three_buckets)
  then show ?thesis using c p n by simp
qed

theorem bucket_partition_witness:
  "hd (learners_of bucket_rows) \<in> set (learners_of bucket_rows) \<and>
   map completion (courses (hd (learners_of bucket_rows))) = [100, 50, 1 / 2, 0] \<and>
   completed (hd (learners_of bucket_rows)) = 1 \<and>
   inProgress (hd (learners_of bucket_rows)) = 1 \<and>
   notStarted (hd (learners_of bucket_rows)) = 2 \<and>
   completed (hd (learners_of bucket_rows)) + inProgress (hd (learners_of bucket_rows))
     + notStarted (hd (learners_of bucket_rows)) = length (courses (hd (learners_of bucket_rows)))"
proof -
  have ne: "learners_of bucket_rows \<noteq> []" by code_simp
  then have mem: "hd (learners_of bucket_rows) \<in> set (learners_of bucket_rows)" by simp
  have cs: "map completion (courses (hd (learners_of bucket_rows))) = [100, 50, 1 / 2, 0]" by code_simp
  have v: "completed (hd (learners_of bucket_rows)) = 1" "inProgress (hd (learners_of bucket_rows)) = 1"
    "notStarted (hd (learners_of bucket_rows)) = 2" by code_simp+
  note inst = bucket_partition [OF mem, THEN conjunct1]
  show ?thesis by (intro conjI mem cs v inst)
qed



text \<open>
  C9. The claim gives the delta column of the CSV export a leading plus sign on a positive
  difference. The export of the improved learner of \<open>two_snapshots\<close>, whose recent averages
  are 40 and 60, prints the difference of the last and first known averages without it.
\<close>

theorem csv_delta_without_plus:
  "map recentAvgs (improvedList (the (analytics two_snapshots))) = [Some [Some 40, Some 60]] \<and>
   map rowBase_delta (improvedList (the (analytics two_snapshots))) = [''20%''] \<and>
   map rowBase_delta (improvedList (the (analytics two_snapshots))) \<noteq> [''+20%'']"
  by code_simp



end
